theory Spec2Isabelle
  imports Main
begin

section \<open>Claim text preprocessing of the claim classification notebook\<close>

text \<open>
  The notebook \<^verbatim>\<open>03 Claim Classification.ipynb\<close> turns every claim text into a list of
  row indices of the GloVe table. Python strings are modelled as \<^typ>\<open>string\<close>, a
  character standing for a code point below 256; Python integers are \<^typ>\<open>int\<close>;
  the contraction dictionary \<^verbatim>\<open>c_map\<close> is a map from strings to strings; an exception is a
  value of type \<open>error\<close>. The loops of \<^verbatim>\<open>convert_to_indices\<close> are modelled as functions on
  these types, once more over arbitrary values, where exceptions other than the handled
  one can arise, and as relations between the arguments and the result of a run.
\<close>

subsection \<open>String primitives of the Python library\<close>

datatype error = ValueError | IndexError | AttributeError

text \<open>\<^verbatim>\<open>string.punctuation\<close>: the 32 ASCII punctuation characters, in the library's order.\<close>

definition punctuation :: string where
  "punctuation =
     ''!'' @ [CHR 0x22] @ ''#$%&'' @ [CHR 0x27] @ ''()*+,-./:;<=>?@['' @ [CHR 0x5C] @ '']^_`{|}~''"

text \<open>
  \<^verbatim>\<open>str.isspace\<close> on one character, for code points below 256: tab, line feed, vertical
  tab, form feed, carriage return, the four separators 0x1C to 0x1F, space, NEL and the
  no-break space.
\<close>

definition isspace :: "char \<Rightarrow> bool" where
  "isspace c = (c \<in> set [CHR 0x09, CHR 0x0A, CHR 0x0B, CHR 0x0C, CHR 0x0D, CHR 0x1C, CHR 0x1D,
                           CHR 0x1E, CHR 0x1F, CHR 0x20, CHR 0x85, CHR 0xA0])"

text \<open>
  \<^verbatim>\<open>s.split()\<close> without a separator: the maximal runs of non-whitespace characters, from
  left to right. The first argument is the run being read.
\<close>

fun split_acc :: "string \<Rightarrow> string \<Rightarrow> string list" where
  "split_acc cur [] = (if cur = [] then [] else [cur])"
| "split_acc cur (c # cs) =
     (if isspace c then (if cur = [] then split_acc [] cs else cur # split_acc [] cs)
      else split_acc (cur @ [c]) cs)"

definition str_split :: "string \<Rightarrow> string list" where
  "str_split s = split_acc [] s"

text \<open>
  \<^verbatim>\<open>s.lower()\<close>, for code points below 256: the letters A to Z and the capital letters
  0xC0 to 0xDE of Latin-1 (the multiplication sign 0xD7 apart) move up by 32.
\<close>

definition char_lower :: "char \<Rightarrow> char" where
  "char_lower c =
     (let n = (of_char c :: nat)
      in if (65 \<le> n \<and> n \<le> 90) \<or> (192 \<le> n \<and> n \<le> 222 \<and> n \<noteq> 215)
         then char_of (n + 32) else c)"

definition str_lower :: "string \<Rightarrow> string" where
  "str_lower s = map char_lower s"

text \<open>\<^verbatim>\<open>xs.index(x)\<close>: the first position of \<open>x\<close>, or \<^verbatim>\<open>ValueError\<close>.\<close>

fun list_index :: "'a list \<Rightarrow> 'a \<Rightarrow> error + int" where
  "list_index [] x = Inl ValueError"
| "list_index (y # ys) x =
     (if y = x then Inr 0
      else (case list_index ys x of Inl e \<Rightarrow> Inl e | Inr i \<Rightarrow> Inr (i + 1)))"

subsection \<open>The notebook's tokenization\<close>

text \<open>
  \<^verbatim>\<open>
  def remove_special_characters(token):
      pattern = re.compile('[{}]'.format(re.escape(string.punctuation)))
      filtered_token = pattern.sub('', token)
      return filtered_token
  \<close>
  The pattern is a character class of the punctuation characters, and \<^verbatim>\<open>sub\<close> deletes
  every match.
\<close>

definition pattern_match :: "char \<Rightarrow> bool" where
  "pattern_match c = (c \<in> set punctuation)"

fun pattern_sub_empty :: "string \<Rightarrow> string" where
  "pattern_sub_empty [] = []"
| "pattern_sub_empty (c # cs) =
     (if pattern_match c then pattern_sub_empty cs else c # pattern_sub_empty cs)"

definition remove_special_characters :: "string \<Rightarrow> string" where
  "remove_special_characters token = pattern_sub_empty token"

text \<open>
  \<^verbatim>\<open>
  def convert_to_indices(corpus, dictionary, c_map, unk_word_index = 399999):
      sequences = []
      for i in range(len(corpus)):
          tokens = corpus[i].split()
          sequence = []
          for word in tokens:
              word = word.lower()
              if word in c_map:
                  resolved_words = c_map[word].split()
                  for resolved_word in resolved_words:
                      try:
                          word_index = dictionary.index(resolved_word)
                          sequence.append(word_index)
                      except ValueError:
                          sequence.append(unk_word_index) #Vector for unkown words
              else:
                  try:
                      clean_word = remove_special_characters(word)
                      if len(clean_word) > 0:
                          word_index = dictionary.index(clean_word)
                          sequence.append(word_index)
                  except ValueError:
                      sequence.append(unk_word_index) #Vector for unkown words
          sequences.append(sequence)
      return sequences
  \<close>
  Each loop is \<open>for_each\<close> over what it iterates, the state being the list it appends
  to; an exception that leaves a loop body ends the loop and is the result.
  \<open>resolved_step\<close> is the body of the innermost loop, \<open>word_step\<close> the body of the
  loop over the tokens, \<open>claim_step\<close> the body of the outer loop. A handler
  \<^verbatim>\<open>except ValueError\<close> takes that exception and lets every other one pass.
\<close>

fun for_each :: "('s \<Rightarrow> 'a \<Rightarrow> error + 's) \<Rightarrow> 's \<Rightarrow> 'a list \<Rightarrow> error + 's" where
  "for_each body s [] = Inr s"
| "for_each body s (x # xs) =
     (case body s x of Inl e \<Rightarrow> Inl e | Inr s' \<Rightarrow> for_each body s' xs)"

definition unk_word_index_default :: int where
  "unk_word_index_default = 399999"

definition resolved_step :: "string list \<Rightarrow> int \<Rightarrow> int list \<Rightarrow> string \<Rightarrow> error + int list" where
  "resolved_step dictionary unk_word_index sequence resolved_word =
     (case list_index dictionary resolved_word of
        Inr word_index \<Rightarrow> Inr (sequence @ [word_index])
      | Inl e \<Rightarrow> if e = ValueError then Inr (sequence @ [unk_word_index]) else Inl e)"

definition word_step ::
  "string list \<Rightarrow> (string \<rightharpoonup> string) \<Rightarrow> int \<Rightarrow> int list \<Rightarrow> string \<Rightarrow> error + int list" where
  "word_step dictionary c_map unk_word_index sequence word0 =
     (let word = str_lower word0
      in case c_map word of
           Some expanded \<Rightarrow>
             (let resolved_words = str_split expanded
              in for_each (resolved_step dictionary unk_word_index) sequence resolved_words)
         | None \<Rightarrow>
             (let clean_word = remove_special_characters word
              in if length clean_word > 0
                 then (case list_index dictionary clean_word of
                         Inr word_index \<Rightarrow> Inr (sequence @ [word_index])
                       | Inl e \<Rightarrow>
                           if e = ValueError then Inr (sequence @ [unk_word_index]) else Inl e)
                 else Inr sequence))"

definition claim_step ::
  "string list \<Rightarrow> string list \<Rightarrow> (string \<rightharpoonup> string) \<Rightarrow> int \<Rightarrow> int list list \<Rightarrow> nat
     \<Rightarrow> error + int list list" where
  "claim_step corpus dictionary c_map unk_word_index sequences i =
     (let tokens = str_split (corpus ! i)
      in case for_each (word_step dictionary c_map unk_word_index) [] tokens of
           Inl e \<Rightarrow> Inl e
         | Inr sequence \<Rightarrow> Inr (sequences @ [sequence]))"

definition convert_to_indices ::
  "string list \<Rightarrow> string list \<Rightarrow> (string \<rightharpoonup> string) \<Rightarrow> int \<Rightarrow> error + int list list" where
  "convert_to_indices corpus dictionary c_map unk_word_index =
     for_each (claim_step corpus dictionary c_map unk_word_index) [] [0 ..< length corpus]"

subsection \<open>The words that reach the dictionary\<close>

text \<open>
  \<open>token_words\<close> lists, for one token, the words handed to \<^verbatim>\<open>dictionary.index\<close>: the
  words of the expansion when the lowercased token is a key of the contraction map, and
  otherwise the cleaned token unless it is empty. \<open>looked_up_words\<close> does so for a whole
  claim, and \<open>lookup_index\<close> is the index one such word contributes.
\<close>

definition token_words :: "(string \<rightharpoonup> string) \<Rightarrow> string \<Rightarrow> string list" where
  "token_words c_map word0 =
     (case c_map (str_lower word0) of
        Some expanded \<Rightarrow> str_split expanded
      | None \<Rightarrow>
          (if remove_special_characters (str_lower word0) = [] then []
           else [remove_special_characters (str_lower word0)]))"

definition looked_up_words :: "(string \<rightharpoonup> string) \<Rightarrow> string \<Rightarrow> string list" where
  "looked_up_words c_map claim = concat (map (token_words c_map) (str_split claim))"

definition lookup_index :: "string list \<Rightarrow> int \<Rightarrow> string \<Rightarrow> int" where
  "lookup_index dictionary unk_word_index w =
     (case list_index dictionary w of Inr word_index \<Rightarrow> word_index | Inl e \<Rightarrow> unk_word_index)"

subsection \<open>The words of a claim, as the specification lists them\<close>

text \<open>
  The specification's reading of the loop over the tokens: a token is lowercased; when it
  is a key of the contraction map it is replaced by the words of its expansion, otherwise
  the punctuation is stripped from it; the results are taken from left to right.
\<close>

definition resulting_words :: "(string \<rightharpoonup> string) \<Rightarrow> string \<Rightarrow> string list" where
  "resulting_words c_map claim =
     concat (map (\<lambda>token. case c_map (str_lower token) of
                             Some expanded \<Rightarrow> str_split expanded
                           | None \<Rightarrow> [remove_special_characters (str_lower token)])
                 (str_split claim))"

subsection \<open>The embedding layer\<close>

text \<open>
  \<^verbatim>\<open>
  embedding_layer = Embedding(word_vectors.shape[0],
                              word_vectors.shape[1],
                              weights=[word_vectors],
                              input_length=maxSeqLength,
                              trainable=False)
  \<close>
  The table \<^verbatim>\<open>word_vectors\<close> is a list of rows. The layer has as many rows as the table,
  and an index addresses a row when it is at least 0 and below that number.
\<close>

definition embedding_input_dim :: "'v list \<Rightarrow> nat" where
  "embedding_input_dim word_vectors = length word_vectors"

definition addresses_row :: "nat \<Rightarrow> int \<Rightarrow> bool" where
  "addresses_row input_dim word_index = (0 \<le> word_index \<and> word_index < int input_dim)"

subsection \<open>Fixed length vectors\<close>

text \<open>
  Modelled from the spec: \<^verbatim>\<open>pad_sequences\<close> is a function of the Keras library, which is
  not part of the repository; only its call is. The specification speaks of padding to a
  fixed length and of a fixed-width integer index matrix. Following the library's
  documentation, a sequence longer than \<^verbatim>\<open>maxlen\<close> loses values at its beginning
  (\<^verbatim>\<open>truncating='pre'\<close>) or at its end (\<^verbatim>\<open>'post'\<close>), and a shorter one is filled up
  to \<^verbatim>\<open>maxlen\<close> with the value 0 before it (\<^verbatim>\<open>padding='pre'\<close>) or after it
  (\<^verbatim>\<open>'post'\<close>). The result has one row per sequence. The library keeps the entries
  as 32-bit integers; the indices are taken to fit.
\<close>

datatype mode = Pre | Post

definition pad_row :: "nat \<Rightarrow> mode \<Rightarrow> mode \<Rightarrow> int \<Rightarrow> int list \<Rightarrow> int list" where
  "pad_row maxlen padding truncating val s =
     (let trunc = (case truncating of
                     Pre \<Rightarrow> drop (length s - maxlen) s
                   | Post \<Rightarrow> take maxlen s)
      in case padding of
           Pre \<Rightarrow> replicate (maxlen - length trunc) val @ trunc
         | Post \<Rightarrow> trunc @ replicate (maxlen - length trunc) val)"

definition pad_sequences :: "int list list \<Rightarrow> nat \<Rightarrow> mode \<Rightarrow> mode \<Rightarrow> int list list" where
  "pad_sequences sequences maxlen padding truncating =
     map (pad_row maxlen padding truncating 0) sequences"

text \<open>
  \<^verbatim>\<open>
  maxSeqLength = 125
  X = pad_sequences(claims_corpus_indices, maxlen=maxSeqLength, padding='pre', truncating='post')
  \<close>
\<close>

definition maxSeqLength :: nat where
  "maxSeqLength = 125"

definition X :: "int list list \<Rightarrow> int list list" where
  "X claims_corpus_indices = pad_sequences claims_corpus_indices maxSeqLength Pre Post"

subsection \<open>The labels\<close>

text \<open>
  \<^verbatim>\<open>
  labels = [int(re.sub("\n", "", label)) for label in open(os.path.join(data_location, 'claims_labels.txt'))]
  \<close>
  The file is the list of its lines. \<^verbatim>\<open>re.sub\<close> deletes the line feeds of a line, and
  \<^verbatim>\<open>int\<close> reads a decimal numeral: surrounding whitespace is dropped, a sign may come
  first, and single underscores may stand between digits; anything else raises
  \<^verbatim>\<open>ValueError\<close>, which ends the comprehension. The whitespace that \<^verbatim>\<open>int\<close> drops
  is tab, line feed, vertical tab, form feed, carriage return, space, NEL and the no-break
  space; unlike \<^verbatim>\<open>split\<close> it keeps the separators 0x1C to 0x1F, which then make the
  numeral ill-formed. (The limit of recent interpreters on the number of digits is left
  out.)
\<close>

definition re_sub_newline :: "string \<Rightarrow> string" where
  "re_sub_newline label = filter (\<lambda>c. c \<noteq> CHR 0x0A) label"

definition int_space :: "char \<Rightarrow> bool" where
  "int_space c = (c \<in> set [CHR 0x09, CHR 0x0A, CHR 0x0B, CHR 0x0C, CHR 0x0D, CHR 0x20,
                             CHR 0x85, CHR 0xA0])"

definition int_strip :: "string \<Rightarrow> string" where
  "int_strip s = rev (dropWhile int_space (rev (dropWhile int_space s)))"

definition is_digit :: "char \<Rightarrow> bool" where
  "is_digit c = (c \<in> set ''0123456789'')"

definition digit_value :: "char \<Rightarrow> int" where
  "digit_value c = int (of_char c) - 48"

fun digits_acc :: "int \<Rightarrow> string \<Rightarrow> error + int" where
  "digits_acc acc [] = Inr acc"
| "digits_acc acc [c] =
     (if is_digit c then Inr (10 * acc + digit_value c) else Inl ValueError)"
| "digits_acc acc (c # d # cs) =
     (if is_digit c then digits_acc (10 * acc + digit_value c) (d # cs)
      else if c = CHR ''_'' \<and> is_digit d then digits_acc acc (d # cs)
      else Inl ValueError)"

definition digits :: "string \<Rightarrow> error + int" where
  "digits s = (case s of
                 [] \<Rightarrow> Inl ValueError
               | c # cs \<Rightarrow> if is_digit c then digits_acc 0 s else Inl ValueError)"

definition py_int :: "string \<Rightarrow> error + int" where
  "py_int s =
     (case int_strip s of
        [] \<Rightarrow> Inl ValueError
      | c # cs \<Rightarrow>
          if c = CHR ''-'' then (case digits cs of Inl e \<Rightarrow> Inl e | Inr n \<Rightarrow> Inr (- n))
          else if c = CHR ''+'' then digits cs
          else digits (c # cs))"

definition labels_step :: "int list \<Rightarrow> string \<Rightarrow> error + int list" where
  "labels_step labels label =
     (case py_int (re_sub_newline label) of
        Inl e \<Rightarrow> Inl e
      | Inr n \<Rightarrow> Inr (labels @ [n]))"

definition labels :: "string list \<Rightarrow> error + int list" where
  "labels lines = for_each labels_step [] lines"

text \<open>
  Modelled from the spec: \<^verbatim>\<open>to_categorical\<close> is a function of the Keras library, which
  is not part of the repository; only its call \<^verbatim>\<open>labels = to_categorical(labels, 2)\<close> is.
  The specification speaks of binary labels. Following the library's documentation, the
  result has one row of \<^verbatim>\<open>num_classes\<close> entries per label, all 0 but a 1 in the column
  of the label (a negative label counting from the last column, as array indices do); a
  label outside the columns raises \<^verbatim>\<open>IndexError\<close>. The entries, floating point numbers 0
  and 1 in the library, are integers here.
\<close>

definition one_hot :: "nat \<Rightarrow> int \<Rightarrow> int list" where
  "one_hot num_classes label =
     (replicate num_classes 0)
       [nat (if label < 0 then label + int num_classes else label) := 1]"

definition to_categorical :: "int list \<Rightarrow> nat \<Rightarrow> error + int list list" where
  "to_categorical y num_classes =
     (if list_all (\<lambda>label. - int num_classes \<le> label \<and> label < int num_classes) y
      then Inr (map (one_hot num_classes) y)
      else Inl IndexError)"

definition categorical_labels :: "string list \<Rightarrow> error + int list list" where
  "categorical_labels lines =
     (case labels lines of Inl e \<Rightarrow> Inl e | Inr ls \<Rightarrow> to_categorical ls 2)"

text \<open>
  A line of a labels file that holds the digit 0 or the digit 1, with or without its line
  feed, and the label such a line stands for.
\<close>

definition binary_line :: "string \<Rightarrow> bool" where
  "binary_line label =
     (label \<in> set [''0'', ''1'', ''0'' @ [CHR 0x0A], ''1'' @ [CHR 0x0A]])"

definition line_value :: "string \<Rightarrow> int" where
  "line_value label = (if re_sub_newline label = ''0'' then 0 else 1)"

subsection \<open>The loops over arbitrary Python values\<close>

text \<open>
  The parameters of \<^verbatim>\<open>convert_to_indices\<close> are untyped. The notebook passes a list of
  strings as \<^verbatim>\<open>dictionary\<close> and, as \<^verbatim>\<open>c_map\<close>, what was read from the two columns of
  the contraction sheet: a string where a cell holds text, another value (the float NaN
  of an empty cell) where it does not. To see which exceptions the loops handle, they are
  modelled once more for such arguments: \<^verbatim>\<open>dictionary.index\<close> is given by the outcome of
  the call on each word, whatever object \<^verbatim>\<open>dictionary\<close> is (an object without the method
  raises \<^verbatim>\<open>AttributeError\<close> on every word), and an expansion is a cell of either kind,
  \<^verbatim>\<open>split\<close> being a method of strings only. The call \<^verbatim>\<open>c_map[word].split()\<close> stands
  outside the \<^verbatim>\<open>try\<close> blocks.
\<close>

datatype cell = Str string | NotStr

definition cell_split :: "cell \<Rightarrow> error + string list" where
  "cell_split expanded =
     (case expanded of Str s \<Rightarrow> Inr (str_split s) | NotStr \<Rightarrow> Inl AttributeError)"

definition resolved_step_any ::
  "(string \<Rightarrow> error + int) \<Rightarrow> int \<Rightarrow> int list \<Rightarrow> string \<Rightarrow> error + int list" where
  "resolved_step_any index unk_word_index sequence resolved_word =
     (case index resolved_word of
        Inr word_index \<Rightarrow> Inr (sequence @ [word_index])
      | Inl e \<Rightarrow> if e = ValueError then Inr (sequence @ [unk_word_index]) else Inl e)"

definition word_step_any ::
  "(string \<Rightarrow> error + int) \<Rightarrow> (string \<rightharpoonup> cell) \<Rightarrow> int \<Rightarrow> int list \<Rightarrow> string
     \<Rightarrow> error + int list" where
  "word_step_any index c_map unk_word_index sequence word0 =
     (let word = str_lower word0
      in case c_map word of
           Some expanded \<Rightarrow>
             (case cell_split expanded of
                Inl e \<Rightarrow> Inl e
              | Inr resolved_words \<Rightarrow>
                  for_each (resolved_step_any index unk_word_index) sequence resolved_words)
         | None \<Rightarrow>
             (let clean_word = remove_special_characters word
              in if length clean_word > 0
                 then (case index clean_word of
                         Inr word_index \<Rightarrow> Inr (sequence @ [word_index])
                       | Inl e \<Rightarrow>
                           if e = ValueError then Inr (sequence @ [unk_word_index]) else Inl e)
                 else Inr sequence))"

definition claim_step_any ::
  "string list \<Rightarrow> (string \<Rightarrow> error + int) \<Rightarrow> (string \<rightharpoonup> cell) \<Rightarrow> int \<Rightarrow> int list list \<Rightarrow> nat
     \<Rightarrow> error + int list list" where
  "claim_step_any corpus index c_map unk_word_index sequences i =
     (let tokens = str_split (corpus ! i)
      in case for_each (word_step_any index c_map unk_word_index) [] tokens of
           Inl e \<Rightarrow> Inl e
         | Inr sequence \<Rightarrow> Inr (sequences @ [sequence]))"

definition convert_to_indices_any ::
  "string list \<Rightarrow> (string \<Rightarrow> error + int) \<Rightarrow> (string \<rightharpoonup> cell) \<Rightarrow> int
     \<Rightarrow> error + int list list" where
  "convert_to_indices_any corpus index c_map unk_word_index =
     for_each (claim_step_any corpus index c_map unk_word_index) [] [0 ..< length corpus]"

text \<open>
  A failure other than the \<^verbatim>\<open>ValueError\<close> of a lookup: the outcome of a call that raises
  another exception; a token whose expansion cannot be split, or one of whose looked-up
  words raises another exception; a corpus with such a token.
\<close>

definition raises_other :: "error + int \<Rightarrow> bool" where
  "raises_other outcome = (case outcome of Inl e \<Rightarrow> e \<noteq> ValueError | Inr i \<Rightarrow> False)"

definition token_fails :: "(string \<Rightarrow> error + int) \<Rightarrow> (string \<rightharpoonup> cell) \<Rightarrow> string \<Rightarrow> bool" where
  "token_fails index c_map word0 =
     (case c_map (str_lower word0) of
        Some expanded \<Rightarrow>
          (case cell_split expanded of
             Inl e \<Rightarrow> True
           | Inr resolved_words \<Rightarrow> list_ex (\<lambda>w. raises_other (index w)) resolved_words)
      | None \<Rightarrow>
          remove_special_characters (str_lower word0) \<noteq> []
          \<and> raises_other (index (remove_special_characters (str_lower word0))))"

definition corpus_fails ::
  "(string \<Rightarrow> error + int) \<Rightarrow> (string \<rightharpoonup> cell) \<Rightarrow> string list \<Rightarrow> bool" where
  "corpus_fails index c_map corpus =
     list_ex (\<lambda>claim. list_ex (token_fails index c_map) (str_split claim)) corpus"

subsection \<open>Runs\<close>

text \<open>
  A run of the notebook's two functions, as a relation between the arguments and a
  result, with one rule for each way through the body of a loop. \<open>strips\<close> is a run of
  \<^verbatim>\<open>remove_special_characters\<close>: the substitution goes through the token from left to
  right and either deletes a character, when the pattern matches it, or keeps it.
  \<open>resolved_run\<close>, \<open>tokens_run\<close> and \<open>corpus_run\<close> are runs of the three loops of
  \<^verbatim>\<open>convert_to_indices\<close> from a state (the list being appended to) over what is left to
  iterate to the state at the end, and \<open>runs\<close> is a run of the whole call. The library
  calls \<^verbatim>\<open>split\<close>, \<^verbatim>\<open>lower\<close> and \<^verbatim>\<open>index\<close> are the functions above.
\<close>

inductive strips :: "string \<Rightarrow> string \<Rightarrow> bool" where
  strips_end: "strips [] []"
| strips_match:
    "pattern_match c \<Longrightarrow> strips cs filtered_token \<Longrightarrow> strips (c # cs) filtered_token"
| strips_keep:
    "\<not> pattern_match c \<Longrightarrow> strips cs filtered_token \<Longrightarrow> strips (c # cs) (c # filtered_token)"

inductive resolved_run :: "string list \<Rightarrow> int \<Rightarrow> int list \<Rightarrow> string list \<Rightarrow> int list \<Rightarrow> bool"
  for dictionary :: "string list" and unk_word_index :: int where
  resolved_end: "resolved_run dictionary unk_word_index sequence [] sequence"
| resolved_found:
    "list_index dictionary resolved_word = Inr word_index \<Longrightarrow>
     resolved_run dictionary unk_word_index (sequence @ [word_index]) resolved_words sequence' \<Longrightarrow>
     resolved_run dictionary unk_word_index sequence (resolved_word # resolved_words) sequence'"
| resolved_unknown:
    "list_index dictionary resolved_word = Inl ValueError \<Longrightarrow>
     resolved_run dictionary unk_word_index (sequence @ [unk_word_index]) resolved_words sequence' \<Longrightarrow>
     resolved_run dictionary unk_word_index sequence (resolved_word # resolved_words) sequence'"

inductive tokens_run ::
  "string list \<Rightarrow> (string \<rightharpoonup> string) \<Rightarrow> int \<Rightarrow> int list \<Rightarrow> string list \<Rightarrow> int list \<Rightarrow> bool"
  for dictionary :: "string list" and c_map :: "string \<rightharpoonup> string" and unk_word_index :: int where
  tokens_end: "tokens_run dictionary c_map unk_word_index sequence [] sequence"
| token_contraction:
    "c_map (str_lower word0) = Some expanded \<Longrightarrow>
     resolved_run dictionary unk_word_index sequence (str_split expanded) sequence1 \<Longrightarrow>
     tokens_run dictionary c_map unk_word_index sequence1 tokens sequence' \<Longrightarrow>
     tokens_run dictionary c_map unk_word_index sequence (word0 # tokens) sequence'"
| token_found:
    "c_map (str_lower word0) = None \<Longrightarrow>
     strips (str_lower word0) clean_word \<Longrightarrow>
     length clean_word > 0 \<Longrightarrow>
     list_index dictionary clean_word = Inr word_index \<Longrightarrow>
     tokens_run dictionary c_map unk_word_index (sequence @ [word_index]) tokens sequence' \<Longrightarrow>
     tokens_run dictionary c_map unk_word_index sequence (word0 # tokens) sequence'"
| token_unknown:
    "c_map (str_lower word0) = None \<Longrightarrow>
     strips (str_lower word0) clean_word \<Longrightarrow>
     length clean_word > 0 \<Longrightarrow>
     list_index dictionary clean_word = Inl ValueError \<Longrightarrow>
     tokens_run dictionary c_map unk_word_index (sequence @ [unk_word_index]) tokens sequence' \<Longrightarrow>
     tokens_run dictionary c_map unk_word_index sequence (word0 # tokens) sequence'"
| token_dropped:
    "c_map (str_lower word0) = None \<Longrightarrow>
     strips (str_lower word0) clean_word \<Longrightarrow>
     \<not> length clean_word > 0 \<Longrightarrow>
     tokens_run dictionary c_map unk_word_index sequence tokens sequence' \<Longrightarrow>
     tokens_run dictionary c_map unk_word_index sequence (word0 # tokens) sequence'"

inductive corpus_run ::
  "string list \<Rightarrow> (string \<rightharpoonup> string) \<Rightarrow> int \<Rightarrow> int list list \<Rightarrow> string list \<Rightarrow> int list list
     \<Rightarrow> bool"
  for dictionary :: "string list" and c_map :: "string \<rightharpoonup> string" and unk_word_index :: int where
  corpus_end: "corpus_run dictionary c_map unk_word_index sequences [] sequences"
| corpus_claim:
    "tokens_run dictionary c_map unk_word_index [] (str_split claim) sequence \<Longrightarrow>
     corpus_run dictionary c_map unk_word_index (sequences @ [sequence]) claims sequences' \<Longrightarrow>
     corpus_run dictionary c_map unk_word_index sequences (claim # claims) sequences'"

definition runs ::
  "string list \<Rightarrow> string list \<Rightarrow> (string \<rightharpoonup> string) \<Rightarrow> int \<Rightarrow> int list list \<Rightarrow> bool" where
  "runs corpus dictionary c_map unk_word_index sequences =
     corpus_run dictionary c_map unk_word_index [] corpus sequences"

code_pred strips .
code_pred resolved_run .
code_pred tokens_run .
code_pred corpus_run .

section \<open>Properties\<close>

subsection \<open>What the loops compute\<close>

lemma list_index_absent: "x \<notin> set xs \<Longrightarrow> list_index xs x = Inl ValueError"
  by (induction xs) auto

lemma list_index_present:
  "x \<in> set xs \<Longrightarrow> \<exists>i. list_index xs x = Inr (int i) \<and> i < length xs \<and> xs ! i = x \<and> (\<forall>j<i. xs ! j \<noteq> x)"
proof (induction xs)
  case Nil
  then show ?case by simp
next
  case (Cons y ys)
  show ?case
  proof (cases "y = x")
    case True
    then show ?thesis by (intro exI[of _ 0]) simp
  next
    case False
    with Cons.prems have "x \<in> set ys" by simp
    from Cons.IH[OF this] obtain i where i: "list_index ys x = Inr (int i)" "i < length ys"
      "ys ! i = x" "\<forall>j<i. ys ! j \<noteq> x" by blast
    have "\<forall>j<Suc i. (y # ys) ! j \<noteq> x"
      using False i(4) by (auto simp: nth_Cons split: nat.splits)
    with False i show ?thesis by (intro exI[of _ "Suc i"]) (simp add: add.commute)
  qed
qed

lemma list_index_error: "list_index xs x = Inl e \<Longrightarrow> e = ValueError \<and> x \<notin> set xs"
  by (induction xs) (auto split: if_splits sum.splits)

lemma resolved_step_eq:
  "resolved_step dictionary u sequence w = Inr (sequence @ [lookup_index dictionary u w])"
  by (auto simp: resolved_step_def lookup_index_def split: sum.splits dest: list_index_error)

lemma for_each_resolved_step:
  "for_each (resolved_step dictionary u) sequence ws = Inr (sequence @ map (lookup_index dictionary u) ws)"
  by (induction ws arbitrary: sequence) (simp_all add: resolved_step_eq)

lemma word_step_eq:
  "word_step dictionary c_map u sequence word0 =
     Inr (sequence @ map (lookup_index dictionary u) (token_words c_map word0))"
  by (auto simp: word_step_def token_words_def lookup_index_def Let_def for_each_resolved_step
      split: option.splits sum.splits dest: list_index_error)

lemma for_each_word_step:
  "for_each (word_step dictionary c_map u) sequence tokens =
     Inr (sequence @ map (lookup_index dictionary u) (concat (map (token_words c_map) tokens)))"
  by (induction tokens arbitrary: sequence) (simp_all add: word_step_eq)

lemma claim_step_eq:
  "claim_step corpus dictionary c_map u sequences i =
     Inr (sequences @ [map (lookup_index dictionary u) (looked_up_words c_map (corpus ! i))])"
  by (simp add: claim_step_def for_each_word_step looked_up_words_def)

lemma for_each_claim_step:
  "for_each (claim_step corpus dictionary c_map u) sequences is =
     Inr (sequences @ map (\<lambda>i. map (lookup_index dictionary u) (looked_up_words c_map (corpus ! i))) is)"
  by (induction "is" arbitrary: sequences) (simp_all add: claim_step_eq)

lemma convert_to_indices_eq:
  "convert_to_indices corpus dictionary c_map u =
     Inr (map (\<lambda>claim. map (lookup_index dictionary u) (looked_up_words c_map claim)) corpus)"
proof -
  have "map (\<lambda>i. map (lookup_index dictionary u) (looked_up_words c_map (corpus ! i))) [0 ..< length corpus]
        = map (\<lambda>claim. map (lookup_index dictionary u) (looked_up_words c_map claim)) (map ((!) corpus) [0 ..< length corpus])"
    by simp
  also have "\<dots> = map (\<lambda>claim. map (lookup_index dictionary u) (looked_up_words c_map claim)) corpus"
    by (simp only: map_nth)
  finally show ?thesis
    by (simp add: convert_to_indices_def for_each_claim_step)
qed

subsection \<open>Words of a split are not empty\<close>

lemma split_acc_nonempty: "[] \<notin> set (split_acc cur s)"
  by (induction s arbitrary: cur) auto

lemma str_split_nonempty: "[] \<notin> set (str_split s)"
  by (simp add: str_split_def split_acc_nonempty)

lemma filter_str_split: "filter (\<lambda>w. w \<noteq> []) (str_split s) = str_split s"
  using str_split_nonempty [of s] by (auto intro: filter_True)

lemma looked_up_words_resulting:
  "looked_up_words c_map claim = filter (\<lambda>w. w \<noteq> []) (resulting_words c_map claim)"
proof -
  have "token_words c_map =
          (\<lambda>token. filter (\<lambda>w. w \<noteq> []) (case c_map (str_lower token) of
                             Some expanded \<Rightarrow> str_split expanded
                           | None \<Rightarrow> [remove_special_characters (str_lower token)]))"
    by (rule ext) (simp add: token_words_def filter_str_split split: option.splits)
  then show ?thesis
    by (simp add: looked_up_words_def resulting_words_def filter_concat comp_def)
qed

subsection \<open>Punctuation\<close>

lemma pattern_sub_empty_filter: "pattern_sub_empty t = filter (\<lambda>c. c \<notin> set punctuation) t"
  by (induction t) (simp_all add: pattern_match_def)

lemma remove_special_characters_filter:
  "remove_special_characters t = filter (\<lambda>c. c \<notin> set punctuation) t"
  by (simp add: remove_special_characters_def pattern_sub_empty_filter)

lemma char_lower_punctuation: "c \<in> set punctuation \<Longrightarrow> char_lower c = c"
  by (auto simp: punctuation_def char_lower_def)

lemma str_lower_punctuation: "set w \<subseteq> set punctuation \<Longrightarrow> str_lower w = w"
  by (induction w) (simp_all add: str_lower_def char_lower_punctuation)

lemma remove_special_characters_punctuation:
  "set w \<subseteq> set punctuation \<Longrightarrow> remove_special_characters w = []"
  by (auto simp: remove_special_characters_filter filter_empty_conv)

lemma token_words_punctuation:
  assumes "c_map (str_lower w) = None" and "set w \<subseteq> set punctuation"
  shows "token_words c_map w = []"
proof -
  from assms(2) have "str_lower w = w" by (rule str_lower_punctuation)
  with assms show ?thesis
    by (simp add: token_words_def remove_special_characters_punctuation)
qed

subsection \<open>Reading binary labels\<close>

lemma py_int_binary_line:
  "binary_line label \<Longrightarrow> py_int (re_sub_newline label) = Inr (line_value label)"
  unfolding binary_line_def
  by (auto simp: line_value_def py_int_def re_sub_newline_def int_strip_def int_space_def
      digits_def is_digit_def digit_value_def)

lemma for_each_labels_step:
  "list_all binary_line lines \<Longrightarrow>
     for_each labels_step acc lines = Inr (acc @ map line_value lines)"
  by (induction lines arbitrary: acc) (simp_all add: labels_step_def py_int_binary_line)

lemma labels_binary:
  "list_all binary_line lines \<Longrightarrow> labels lines = Inr (map line_value lines)"
  by (simp add: labels_def for_each_labels_step)

lemma to_categorical_binary:
  "list_all (\<lambda>l. l = 0 \<or> l = 1) ls \<Longrightarrow>
     to_categorical ls 2 = Inr (map (\<lambda>l. if l = 0 then [1, 0] else [0, 1]) ls)"
proof -
  assume a: "list_all (\<lambda>l. l = 0 \<or> l = 1) ls"
  then have "list_all (\<lambda>label. - int 2 \<le> label \<and> label < int 2) ls"
    by (auto simp: list_all_iff)
  moreover have "map (one_hot 2) ls = map (\<lambda>l. if l = 0 then [1, 0] else [0, 1]) ls"
    using a by (auto simp: list_all_iff one_hot_def numeral_2_eq_2)
  ultimately show ?thesis by (simp add: to_categorical_def)
qed

subsection \<open>Failures of a loop\<close>

lemma for_each_fails_at:
  "for_each body s xs = Inl e \<Longrightarrow> \<exists>s' x. x \<in> set xs \<and> body s' x = Inl e"
proof (induction xs arbitrary: s)
  case Nil
  then show ?case by simp
next
  case (Cons x xs)
  show ?case
  proof (cases "body s x")
    case (Inl e')
    with Cons.prems have "body s x = Inl e" by simp
    then show ?thesis by auto
  next
    case (Inr s')
    with Cons.prems have "for_each body s' xs = Inl e" by simp
    from Cons.IH [OF this] show ?thesis by auto
  qed
qed

lemma for_each_returns_steps:
  "for_each body s xs = Inr s' \<Longrightarrow> x \<in> set xs \<Longrightarrow> \<exists>s1 s2. body s1 x = Inr s2"
proof (induction xs arbitrary: s)
  case Nil
  then show ?case by simp
next
  case (Cons y ys)
  from Cons.prems(1) obtain t where t: "body s y = Inr t" "for_each body t ys = Inr s'"
    by (auto split: sum.splits)
  show ?case
  proof (cases "x = y")
    case True
    with t(1) show ?thesis by blast
  next
    case False
    with Cons.prems(2) have "x \<in> set ys" by simp
    from Cons.IH [OF t(2) this] show ?thesis .
  qed
qed

lemma for_each_returns:
  "(\<And>s x. x \<in> set xs \<Longrightarrow> \<exists>s'. body s x = Inr s') \<Longrightarrow> \<exists>s'. for_each body s xs = Inr s'"
proof (induction xs arbitrary: s)
  case Nil
  then show ?case by simp
next
  case (Cons y ys)
  from Cons.prems [of y s] obtain t where t: "body s y = Inr t" by auto
  have "\<exists>s'. for_each body t ys = Inr s'"
    by (rule Cons.IH) (simp add: Cons.prems)
  with t show ?case by simp
qed

lemma resolved_step_any_Inl:
  "resolved_step_any index u sequence w = Inl e \<Longrightarrow> e \<noteq> ValueError \<and> index w = Inl e"
  by (auto simp: resolved_step_any_def split: sum.splits if_splits)

lemma resolved_step_any_other:
  "raises_other (index w) \<Longrightarrow> \<exists>e. resolved_step_any index u sequence w = Inl e"
  by (auto simp: resolved_step_any_def raises_other_def split: sum.splits)

lemma resolved_step_any_returns:
  "\<not> raises_other (index w) \<Longrightarrow> \<exists>s'. resolved_step_any index u sequence w = Inr s'"
  by (auto simp: resolved_step_any_def raises_other_def split: sum.splits)

lemma word_step_any_Inl:
  assumes "word_step_any index c_map u sequence word0 = Inl e"
  shows "e \<noteq> ValueError \<and> token_fails index c_map word0"
proof (cases "c_map (str_lower word0)")
  case None
  with assms show ?thesis
    by (auto simp: word_step_any_def token_fails_def raises_other_def Let_def
        split: sum.splits if_splits)
next
  case (Some expanded)
  show ?thesis
  proof (cases "cell_split expanded")
    case (Inl e')
    with Some assms have "e = e'" by (simp add: word_step_any_def)
    moreover from Inl have "e' = AttributeError"
      by (auto simp: cell_split_def split: cell.splits)
    ultimately show ?thesis using Some Inl by (simp add: token_fails_def)
  next
    case (Inr resolved_words)
    with Some assms have "for_each (resolved_step_any index u) sequence resolved_words = Inl e"
      by (simp add: word_step_any_def)
    from for_each_fails_at [OF this] obtain s' w where
      w: "w \<in> set resolved_words" "resolved_step_any index u s' w = Inl e" by blast
    from resolved_step_any_Inl [OF w(2)] have e: "e \<noteq> ValueError" "index w = Inl e" by simp_all
    then have "raises_other (index w)" by (simp add: raises_other_def)
    with w(1) have "list_ex (\<lambda>w. raises_other (index w)) resolved_words"
      by (auto simp: list_ex_iff)
    with Some Inr e(1) show ?thesis by (simp add: token_fails_def)
  qed
qed

lemma word_step_any_fails:
  assumes "token_fails index c_map word0"
  shows "\<exists>e. word_step_any index c_map u sequence word0 = Inl e"
proof (cases "c_map (str_lower word0)")
  case None
  with assms show ?thesis
    by (auto simp: word_step_any_def token_fails_def raises_other_def Let_def split: sum.splits)
next
  case (Some expanded)
  show ?thesis
  proof (cases "cell_split expanded")
    case (Inl e')
    with Some show ?thesis by (simp add: word_step_any_def)
  next
    case (Inr resolved_words)
    with Some assms obtain w where w: "w \<in> set resolved_words" "raises_other (index w)"
      by (auto simp: token_fails_def list_ex_iff)
    have "for_each (resolved_step_any index u) sequence resolved_words \<noteq> Inr s'" for s'
    proof
      assume "for_each (resolved_step_any index u) sequence resolved_words = Inr s'"
      from for_each_returns_steps [OF this w(1)] obtain s1 s2 where
        "resolved_step_any index u s1 w = Inr s2" by blast
      moreover from w(2) have "\<exists>e. resolved_step_any index u s1 w = Inl e"
        by (rule resolved_step_any_other)
      ultimately show False by auto
    qed
    then obtain e where "for_each (resolved_step_any index u) sequence resolved_words = Inl e"
      by (cases "for_each (resolved_step_any index u) sequence resolved_words") auto
    with Some Inr show ?thesis by (simp add: word_step_any_def)
  qed
qed

lemma word_step_any_returns:
  assumes "\<not> token_fails index c_map word0"
  shows "\<exists>s'. word_step_any index c_map u sequence word0 = Inr s'"
proof (cases "c_map (str_lower word0)")
  case None
  with assms show ?thesis
    by (auto simp: word_step_any_def token_fails_def raises_other_def Let_def split: sum.splits)
next
  case (Some expanded)
  with assms obtain resolved_words where
    r: "cell_split expanded = Inr resolved_words"
       "\<not> list_ex (\<lambda>w. raises_other (index w)) resolved_words"
    by (auto simp: token_fails_def split: sum.splits)
  have "\<exists>s'. for_each (resolved_step_any index u) sequence resolved_words = Inr s'"
  proof (rule for_each_returns)
    fix s x
    assume "x \<in> set resolved_words"
    with r(2) have "\<not> raises_other (index x)" by (auto simp: list_ex_iff)
    then show "\<exists>s'. resolved_step_any index u s x = Inr s'"
      by (rule resolved_step_any_returns)
  qed
  with Some r(1) show ?thesis by (simp add: word_step_any_def)
qed

lemma convert_to_indices_any_Inl:
  assumes "convert_to_indices_any corpus index c_map u = Inl e"
  shows "e \<noteq> ValueError \<and> corpus_fails index c_map corpus"
proof -
  from assms have
    "for_each (claim_step_any corpus index c_map u) [] [0 ..< length corpus] = Inl e"
    by (simp add: convert_to_indices_any_def)
  from for_each_fails_at [OF this] obtain sequences i where
    i: "i \<in> set [0 ..< length corpus]" "claim_step_any corpus index c_map u sequences i = Inl e"
    by blast
  from i(2) have "for_each (word_step_any index c_map u) [] (str_split (corpus ! i)) = Inl e"
    by (simp add: claim_step_any_def split: sum.splits)
  from for_each_fails_at [OF this] obtain sequence word0 where
    w: "word0 \<in> set (str_split (corpus ! i))" "word_step_any index c_map u sequence word0 = Inl e"
    by blast
  from word_step_any_Inl [OF w(2)] have e: "e \<noteq> ValueError" "token_fails index c_map word0"
    by simp_all
  from i(1) have "corpus ! i \<in> set corpus" by simp
  with w(1) e(2) have "corpus_fails index c_map corpus"
    by (auto simp: corpus_fails_def list_ex_iff)
  with e(1) show ?thesis by simp
qed

lemma convert_to_indices_any_fails:
  assumes "corpus_fails index c_map corpus"
  shows "\<exists>e. convert_to_indices_any corpus index c_map u = Inl e"
proof -
  from assms obtain claim word0 where
    c: "claim \<in> set corpus" "word0 \<in> set (str_split claim)" "token_fails index c_map word0"
    by (auto simp: corpus_fails_def list_ex_iff)
  from c(1) obtain i where i: "i < length corpus" "corpus ! i = claim"
    by (auto simp: in_set_conv_nth)
  have "convert_to_indices_any corpus index c_map u \<noteq> Inr sequences" for sequences
  proof
    assume "convert_to_indices_any corpus index c_map u = Inr sequences"
    then have "for_each (claim_step_any corpus index c_map u) [] [0 ..< length corpus] = Inr sequences"
      by (simp add: convert_to_indices_any_def)
    from for_each_returns_steps [OF this, of i] i(1) obtain s1 s2 where
      "claim_step_any corpus index c_map u s1 i = Inr s2" by auto
    then obtain sequence where
      "for_each (word_step_any index c_map u) [] (str_split (corpus ! i)) = Inr sequence"
      by (auto simp: claim_step_any_def split: sum.splits)
    from for_each_returns_steps [OF this, of word0] c(2) i(2) obtain t1 t2 where
      "word_step_any index c_map u t1 word0 = Inr t2" by auto
    moreover from c(3) have "\<exists>e. word_step_any index c_map u t1 word0 = Inl e"
      by (rule word_step_any_fails)
    ultimately show False by auto
  qed
  then show ?thesis
    by (cases "convert_to_indices_any corpus index c_map u") auto
qed

lemma convert_to_indices_any_returns_iff:
  "(\<exists>sequences. convert_to_indices_any corpus index c_map u = Inr sequences)
     = (\<not> corpus_fails index c_map corpus)"
proof
  assume "\<exists>sequences. convert_to_indices_any corpus index c_map u = Inr sequences"
  with convert_to_indices_any_fails [of index c_map corpus u]
  show "\<not> corpus_fails index c_map corpus" by auto
next
  assume n: "\<not> corpus_fails index c_map corpus"
  show "\<exists>sequences. convert_to_indices_any corpus index c_map u = Inr sequences"
  proof (cases "convert_to_indices_any corpus index c_map u")
    case (Inl e)
    from convert_to_indices_any_Inl [OF this] n show ?thesis by simp
  next
    case (Inr sequences)
    then show ?thesis by simp
  qed
qed

lemma resolved_step_any_typed:
  "resolved_step_any (list_index dictionary) u = resolved_step dictionary u"
  by (intro ext) (simp add: resolved_step_any_def resolved_step_def)

lemma word_step_any_typed:
  "word_step_any (list_index dictionary) (map_option Str \<circ> c_map) u = word_step dictionary c_map u"
  by (intro ext)
    (simp add: word_step_any_def word_step_def resolved_step_any_typed cell_split_def Let_def
      split: option.splits)

lemma claim_step_any_typed:
  "claim_step_any corpus (list_index dictionary) (map_option Str \<circ> c_map) u
     = claim_step corpus dictionary c_map u"
  by (intro ext) (simp add: claim_step_any_def claim_step_def word_step_any_typed)

lemma convert_to_indices_any_typed:
  "convert_to_indices_any corpus (list_index dictionary) (map_option Str \<circ> c_map) u
     = convert_to_indices corpus dictionary c_map u"
  by (simp add: convert_to_indices_any_def convert_to_indices_def claim_step_any_typed)

subsection \<open>Runs have one result\<close>

inductive_cases strips_NilE: "strips [] filtered_token"
inductive_cases strips_ConsE: "strips (c # cs) filtered_token"
inductive_cases resolved_run_NilE: "resolved_run dictionary unk_word_index sequence [] sequence'"
inductive_cases resolved_run_ConsE:
  "resolved_run dictionary unk_word_index sequence (resolved_word # resolved_words) sequence'"
inductive_cases tokens_run_NilE: "tokens_run dictionary c_map unk_word_index sequence [] sequence'"
inductive_cases tokens_run_ConsE:
  "tokens_run dictionary c_map unk_word_index sequence (word0 # tokens) sequence'"
inductive_cases corpus_run_NilE: "corpus_run dictionary c_map unk_word_index sequences [] sequences'"
inductive_cases corpus_run_ConsE:
  "corpus_run dictionary c_map unk_word_index sequences (claim # claims) sequences'"

lemma strips_one_result: "strips token a \<Longrightarrow> strips token b \<Longrightarrow> a = b"
proof (induction arbitrary: b rule: strips.induct)
  case strips_end
  then show ?case by (auto elim: strips_NilE)
next
  case (strips_match c cs filtered_token)
  from strips_match.prems strips_match.hyps(1) have "strips cs b"
    by (auto elim: strips_ConsE)
  then show ?case by (rule strips_match.IH)
next
  case (strips_keep c cs filtered_token)
  from strips_keep.prems strips_keep.hyps(1) obtain b' where "b = c # b'" "strips cs b'"
    by (auto elim: strips_ConsE)
  with strips_keep.IH show ?case by simp
qed

lemma strips_remove_special_characters: "strips token (remove_special_characters token)"
  unfolding remove_special_characters_def
  by (induction token) (auto intro: strips.intros)

lemma resolved_run_one_result:
  "resolved_run dictionary u sequence ws a \<Longrightarrow> resolved_run dictionary u sequence ws b \<Longrightarrow> a = b"
proof (induction arbitrary: b rule: resolved_run.induct)
  case (resolved_end sequence)
  then show ?case by (auto elim: resolved_run_NilE)
next
  case (resolved_found resolved_word word_index sequence resolved_words sequence')
  from resolved_found.prems resolved_found.hyps(1)
  have "resolved_run dictionary u (sequence @ [word_index]) resolved_words b"
    by (auto elim: resolved_run_ConsE)
  then show ?case by (rule resolved_found.IH)
next
  case (resolved_unknown resolved_word sequence resolved_words sequence')
  from resolved_unknown.prems resolved_unknown.hyps(1)
  have "resolved_run dictionary u (sequence @ [u]) resolved_words b"
    by (auto elim: resolved_run_ConsE)
  then show ?case by (rule resolved_unknown.IH)
qed

lemma tokens_run_one_result:
  "tokens_run dictionary c_map u sequence tokens a \<Longrightarrow>
   tokens_run dictionary c_map u sequence tokens b \<Longrightarrow> a = b"
proof (induction arbitrary: b rule: tokens_run.induct)
  case (tokens_end sequence)
  then show ?case by (auto elim: tokens_run_NilE)
next
  case (token_contraction word0 expanded sequence sequence1 tokens sequence')
  from token_contraction.prems token_contraction.hyps(1) obtain s where
    s: "resolved_run dictionary u sequence (str_split expanded) s"
       "tokens_run dictionary c_map u s tokens b"
    by (auto elim: tokens_run_ConsE)
  from resolved_run_one_result [OF token_contraction.hyps(2) s(1)] s(2)
  have "tokens_run dictionary c_map u sequence1 tokens b" by simp
  then show ?case by (rule token_contraction.IH)
next
  case (token_found word0 clean_word word_index sequence tokens sequence')
  from token_found.prems token_found.hyps(1,2,3,4)
  have "tokens_run dictionary c_map u (sequence @ [word_index]) tokens b"
    by (auto elim!: tokens_run_ConsE dest: strips_one_result)
  then show ?case by (rule token_found.IH)
next
  case (token_unknown word0 clean_word sequence tokens sequence')
  from token_unknown.prems token_unknown.hyps(1,2,3,4)
  have "tokens_run dictionary c_map u (sequence @ [u]) tokens b"
    by (auto elim!: tokens_run_ConsE dest: strips_one_result)
  then show ?case by (rule token_unknown.IH)
next
  case (token_dropped word0 clean_word sequence tokens sequence')
  from token_dropped.prems token_dropped.hyps(1,2,3)
  have "tokens_run dictionary c_map u sequence tokens b"
    by (auto elim!: tokens_run_ConsE dest: strips_one_result)
  then show ?case by (rule token_dropped.IH)
qed

lemma corpus_run_one_result:
  "corpus_run dictionary c_map u sequences claims a \<Longrightarrow>
   corpus_run dictionary c_map u sequences claims b \<Longrightarrow> a = b"
proof (induction arbitrary: b rule: corpus_run.induct)
  case (corpus_end sequences)
  then show ?case by (auto elim: corpus_run_NilE)
next
  case (corpus_claim claim sequence sequences claims sequences')
  from corpus_claim.prems obtain s where
    s: "tokens_run dictionary c_map u [] (str_split claim) s"
       "corpus_run dictionary c_map u (sequences @ [s]) claims b"
    by (auto elim: corpus_run_ConsE)
  from tokens_run_one_result [OF corpus_claim.hyps(1) s(1)] s(2)
  have "corpus_run dictionary c_map u (sequences @ [sequence]) claims b" by simp
  then show ?case by (rule corpus_claim.IH)
qed

subsection \<open>The loops are runs\<close>

lemma resolved_run_lookup:
  "resolved_run dictionary u sequence ws (sequence @ map (lookup_index dictionary u) ws)"
proof (induction ws arbitrary: sequence)
  case Nil
  show ?case by (simp add: resolved_end)
next
  case (Cons w ws)
  show ?case
  proof (cases "list_index dictionary w")
    case (Inl e)
    then have e: "list_index dictionary w = Inl ValueError"
      by (auto dest: list_index_error)
    from Cons [of "sequence @ [u]"] e show ?thesis
      by (auto intro: resolved_unknown simp: lookup_index_def)
  next
    case (Inr i)
    from Cons [of "sequence @ [i]"] Inr show ?thesis
      by (auto intro: resolved_found simp: lookup_index_def)
  qed
qed

lemma tokens_run_lookup:
  "tokens_run dictionary c_map u sequence tokens
     (sequence @ map (lookup_index dictionary u) (concat (map (token_words c_map) tokens)))"
proof (induction tokens arbitrary: sequence)
  case Nil
  show ?case by (simp add: tokens_end)
next
  case (Cons word0 tokens)
  let ?rest = "\<lambda>s. s @ map (lookup_index dictionary u) (concat (map (token_words c_map) tokens))"
  show ?case
  proof (cases "c_map (str_lower word0)")
    case (Some expanded)
    let ?s1 = "sequence @ map (lookup_index dictionary u) (str_split expanded)"
    have "tokens_run dictionary c_map u sequence (word0 # tokens) (?rest ?s1)"
      using Some resolved_run_lookup Cons [of ?s1] by (rule token_contraction)
    moreover from Some have "token_words c_map word0 = str_split expanded"
      by (simp add: token_words_def)
    ultimately show ?thesis by simp
  next
    case None
    let ?clean = "remove_special_characters (str_lower word0)"
    have st: "strips (str_lower word0) ?clean" by (rule strips_remove_special_characters)
    show ?thesis
    proof (cases "length ?clean > 0")
      case False
      have "tokens_run dictionary c_map u sequence (word0 # tokens) (?rest sequence)"
        using None st False Cons [of sequence] by (rule token_dropped)
      moreover from None False have "token_words c_map word0 = []"
        by (simp add: token_words_def)
      ultimately show ?thesis by simp
    next
      case True
      show ?thesis
      proof (cases "list_index dictionary ?clean")
        case (Inl e)
        then have e: "list_index dictionary ?clean = Inl ValueError"
          by (auto dest: list_index_error)
        have "tokens_run dictionary c_map u sequence (word0 # tokens) (?rest (sequence @ [u]))"
          using None st True e Cons [of "sequence @ [u]"] by (rule token_unknown)
        moreover from None True have "token_words c_map word0 = [?clean]"
          by (simp add: token_words_def)
        moreover from e have "lookup_index dictionary u ?clean = u"
          by (simp add: lookup_index_def)
        ultimately show ?thesis by simp
      next
        case (Inr i)
        have "tokens_run dictionary c_map u sequence (word0 # tokens) (?rest (sequence @ [i]))"
          using None st True Inr Cons [of "sequence @ [i]"] by (rule token_found)
        moreover from None True have "token_words c_map word0 = [?clean]"
          by (simp add: token_words_def)
        moreover from Inr have "lookup_index dictionary u ?clean = i"
          by (simp add: lookup_index_def)
        ultimately show ?thesis by simp
      qed
    qed
  qed
qed

lemma corpus_run_lookup:
  "corpus_run dictionary c_map u sequences claims
     (sequences @ map (\<lambda>claim. map (lookup_index dictionary u) (looked_up_words c_map claim)) claims)"
proof (induction claims arbitrary: sequences)
  case Nil
  show ?case by (simp add: corpus_end)
next
  case (Cons claim claims)
  let ?sequence = "map (lookup_index dictionary u) (looked_up_words c_map claim)"
  have "tokens_run dictionary c_map u [] (str_split claim) ?sequence"
    using tokens_run_lookup [of dictionary c_map u "[]" "str_split claim"]
    by (simp add: looked_up_words_def)
  from this Cons [of "sequences @ [?sequence]"]
  have "corpus_run dictionary c_map u sequences (claim # claims)
          ((sequences @ [?sequence]) @ map (\<lambda>claim. map (lookup_index dictionary u)
             (looked_up_words c_map claim)) claims)"
    by (rule corpus_claim)
  then show ?case by simp
qed

lemma runs_convert_to_indices:
  "convert_to_indices corpus dictionary c_map u = Inr sequences \<Longrightarrow>
     runs corpus dictionary c_map u sequences"
  using corpus_run_lookup [of dictionary c_map u "[]" corpus]
  by (simp add: runs_def convert_to_indices_eq)

subsection \<open>Unknown words\<close>

text \<open>
  Claim C1. Whenever a word that \<open>convert_to_indices\<close> looks up (a word of a contraction's
  expansion, or a cleaned token that is no contraction) is absent from the dictionary, the
  lookup raises \<^verbatim>\<open>ValueError\<close> and the placeholder index 399999, the default of
  \<^verbatim>\<open>unk_word_index\<close>, stands in the output sequence at that word's place. This
  substitution is the only failure that is handled: a lookup that raises \<^verbatim>\<open>ValueError\<close>
  appends the placeholder and one that raises another exception passes it on; over
  arbitrary values the call returns a list of sequences exactly when no failure other than
  that \<^verbatim>\<open>ValueError\<close> arises (no expansion that cannot be split, no lookup raising
  another exception), and an exception that leaves the call is never \<^verbatim>\<open>ValueError\<close>.
  On a list of strings and a map to strings the loops over arbitrary values are
  \<open>convert_to_indices\<close>.
\<close>

theorem unmapped_word_gets_placeholder:
  "(k < length corpus \<and> j < length (looked_up_words c_map (corpus ! k))
      \<and> looked_up_words c_map (corpus ! k) ! j \<notin> set dictionary \<longrightarrow>
      list_index dictionary (looked_up_words c_map (corpus ! k) ! j) = Inl ValueError
      \<and> (\<exists>sequences. convert_to_indices corpus dictionary c_map unk_word_index_default = Inr sequences
            \<and> length sequences = length corpus
            \<and> length (sequences ! k) = length (looked_up_words c_map (corpus ! k))
            \<and> sequences ! k ! j = 399999))
   \<and> convert_to_indices_any corpus (list_index dictionary) (map_option Str \<circ> c_map) unk_word_index
       = convert_to_indices corpus dictionary c_map unk_word_index
   \<and> (index w = Inl e \<longrightarrow>
        resolved_step_any index unk_word_index sequence w
          = (if e = ValueError then Inr (sequence @ [unk_word_index]) else Inl e))
   \<and> (\<exists>sequences. convert_to_indices_any corpus index cells unk_word_index = Inr sequences)
       = (\<not> corpus_fails index cells corpus)
   \<and> (convert_to_indices_any corpus index cells unk_word_index = Inl e' \<longrightarrow> e' \<noteq> ValueError)"
proof (intro conjI impI)
  assume a: "k < length corpus \<and> j < length (looked_up_words c_map (corpus ! k))
      \<and> looked_up_words c_map (corpus ! k) ! j \<notin> set dictionary"
  let ?w = "looked_up_words c_map (corpus ! k) ! j"
  from a show absent: "list_index dictionary ?w = Inl ValueError"
    by (simp add: list_index_absent)
  then have "lookup_index dictionary unk_word_index_default ?w = 399999"
    by (simp add: lookup_index_def unk_word_index_default_def)
  with a show "\<exists>sequences. convert_to_indices corpus dictionary c_map unk_word_index_default = Inr sequences
            \<and> length sequences = length corpus
            \<and> length (sequences ! k) = length (looked_up_words c_map (corpus ! k))
            \<and> sequences ! k ! j = 399999"
    by (simp add: convert_to_indices_eq)
next
  show "convert_to_indices_any corpus (list_index dictionary) (map_option Str \<circ> c_map) unk_word_index
       = convert_to_indices corpus dictionary c_map unk_word_index"
    by (rule convert_to_indices_any_typed)
next
  assume "index w = Inl e"
  then show "resolved_step_any index unk_word_index sequence w
          = (if e = ValueError then Inr (sequence @ [unk_word_index]) else Inl e)"
    by (simp add: resolved_step_any_def)
next
  show "(\<exists>sequences. convert_to_indices_any corpus index cells unk_word_index = Inr sequences)
       = (\<not> corpus_fails index cells corpus)"
    by (rule convert_to_indices_any_returns_iff)
next
  assume "convert_to_indices_any corpus index cells unk_word_index = Inl e'"
  from convert_to_indices_any_Inl [OF this] show "e' \<noteq> ValueError" by simp
qed

text \<open>
  The second of the claims \<open>my car\<close> and \<open>the Flood, ruined\<close>, against a dictionary that
  knows \<open>the\<close> and \<open>flood\<close> only: its third word \<open>ruined\<close> is unknown. The same corpus
  with \<open>the\<close> mapped to a cell that is no string raises \<^verbatim>\<open>AttributeError\<close>, and so
  it does when the dictionary is an object without the method \<^verbatim>\<open>index\<close>.
\<close>

theorem unmapped_word_gets_placeholder_witness:
  "(1::nat) < length [''my car'', ''the Flood, ruined'']
   \<and> (2::nat) < length (looked_up_words Map.empty ([''my car'', ''the Flood, ruined''] ! 1))
   \<and> looked_up_words Map.empty ([''my car'', ''the Flood, ruined''] ! 1) ! 2 \<notin> set [''the'', ''flood'']
   \<and> list_index [''the'', ''flood'']
         (looked_up_words Map.empty ([''my car'', ''the Flood, ruined''] ! 1) ! 2) = Inl ValueError
   \<and> (\<exists>sequences. convert_to_indices [''my car'', ''the Flood, ruined''] [''the'', ''flood'']
                      Map.empty unk_word_index_default = Inr sequences
         \<and> length sequences = length [''my car'', ''the Flood, ruined'']
         \<and> length (sequences ! 1)
             = length (looked_up_words Map.empty ([''my car'', ''the Flood, ruined''] ! 1))
         \<and> sequences ! 1 ! 2 = 399999)
   \<and> list_index [''the'', ''flood''] ''ruined'' = Inl ValueError
   \<and> resolved_step_any (list_index [''the'', ''flood'']) 399999 [0, 1] ''ruined''
       = Inr ([0, 1] @ [399999])
   \<and> resolved_step_any (\<lambda>w. Inl AttributeError) 399999 [0, 1] ''ruined'' = Inl AttributeError
   \<and> corpus_fails (list_index [''the'', ''flood'']) [''the'' \<mapsto> NotStr]
         [''my car'', ''the Flood, ruined'']
   \<and> \<not> (\<exists>sequences. convert_to_indices_any [''my car'', ''the Flood, ruined'']
                        (list_index [''the'', ''flood'']) [''the'' \<mapsto> NotStr] 399999 = Inr sequences)
   \<and> convert_to_indices_any [''my car'', ''the Flood, ruined'']
         (list_index [''the'', ''flood'']) [''the'' \<mapsto> NotStr] 399999 = Inl AttributeError
   \<and> AttributeError \<noteq> ValueError
   \<and> \<not> corpus_fails (list_index [''the'', ''flood'']) Map.empty [''my car'', ''the Flood, ruined'']
   \<and> (\<exists>sequences. convert_to_indices_any [''my car'', ''the Flood, ruined'']
                      (list_index [''the'', ''flood'']) Map.empty 399999 = Inr sequences)"
proof -
  let ?corpus = "[''my car'', ''the Flood, ruined'']"
  let ?dictionary = "[''the'', ''flood'']"
  have h1: "(1::nat) < length ?corpus" by simp
  have h2: "(2::nat) < length (looked_up_words Map.empty (?corpus ! 1))"
    by code_simp
  have h3: "looked_up_words Map.empty (?corpus ! 1) ! 2 \<notin> set ?dictionary"
    by code_simp
  have h4: "list_index ?dictionary ''ruined'' = Inl ValueError" by code_simp
  have h5: "(\<lambda>w. Inl AttributeError :: error + int) ''ruined'' = Inl AttributeError" by simp
  have h6: "corpus_fails (list_index ?dictionary) [''the'' \<mapsto> NotStr] ?corpus"
    by code_simp
  have h7: "convert_to_indices_any ?corpus (list_index ?dictionary) [''the'' \<mapsto> NotStr] 399999
              = Inl AttributeError"
    by code_simp
  have h8: "\<not> corpus_fails (list_index ?dictionary) Map.empty ?corpus"
    by code_simp
  note typed = unmapped_word_gets_placeholder
    [where k = 1 and corpus = ?corpus and c_map = Map.empty and j = 2
       and dictionary = ?dictionary and unk_word_index = 399999
       and index = "list_index ?dictionary" and w = "''ruined''" and e = ValueError
       and sequence = "[0, 1]" and cells = "[''the'' \<mapsto> NotStr]" and e' = AttributeError]
  note other = unmapped_word_gets_placeholder
    [where k = 1 and corpus = ?corpus and c_map = Map.empty and j = 2
       and dictionary = ?dictionary and unk_word_index = 399999
       and index = "\<lambda>w. Inl AttributeError" and w = "''ruined''" and e = AttributeError
       and sequence = "[0, 1]" and cells = Map.empty and e' = AttributeError]
  from typed h1 h2 h3 have a: "list_index ?dictionary (looked_up_words Map.empty (?corpus ! 1) ! 2)
        = Inl ValueError
      \<and> (\<exists>sequences. convert_to_indices ?corpus ?dictionary Map.empty unk_word_index_default
                         = Inr sequences
            \<and> length sequences = length ?corpus
            \<and> length (sequences ! 1) = length (looked_up_words Map.empty (?corpus ! 1))
            \<and> sequences ! 1 ! 2 = 399999)"
    by blast
  from typed h4 have b: "resolved_step_any (list_index ?dictionary) 399999 [0, 1] ''ruined''
       = Inr ([0, 1] @ [399999])"
    by simp
  from other h5 have c: "resolved_step_any (\<lambda>w. Inl AttributeError) 399999 [0, 1] ''ruined''
       = Inl AttributeError"
    by simp
  from typed h6 have d: "\<not> (\<exists>sequences. convert_to_indices_any ?corpus (list_index ?dictionary)
       [''the'' \<mapsto> NotStr] 399999 = Inr sequences)"
    by blast
  from typed h7 have e: "AttributeError \<noteq> ValueError" by blast
  from unmapped_word_gets_placeholder
    [where k = 1 and corpus = ?corpus and c_map = Map.empty and j = 2
       and dictionary = ?dictionary and unk_word_index = 399999
       and index = "list_index ?dictionary" and w = "''ruined''" and e = ValueError
       and sequence = "[0, 1]" and cells = Map.empty and e' = AttributeError] h8
  have f: "\<exists>sequences. convert_to_indices_any ?corpus (list_index ?dictionary) Map.empty 399999
             = Inr sequences"
    by blast
  from h1 h2 h3 a h4 b c h6 d h7 e h8 f show ?thesis by blast
qed

subsection \<open>Known words\<close>

text \<open>
  Claim C2, as stated: every word that results from a token (a word of the expansion, or
  the token with its punctuation stripped) and occurs in the dictionary contributes the
  index of its first occurrence. It fails where stripping leaves the empty string and the
  dictionary holds the empty string: the claim \<open>!\<close> has the one token \<open>!\<close>, which
  is no contraction and is stripped to the empty string; the dictionary holds it at
  position 0, and the sequence is empty all the same, since the guard
  \<^verbatim>\<open>if len(clean_word) > 0\<close> skips the lookup.
\<close>

theorem empty_word_in_dictionary_counterexample:
  "str_split ''!'' = [''!'']
   \<and> resulting_words Map.empty ''!'' = [[]]
   \<and> list_index [[]] ([] :: string) = Inr 0
   \<and> convert_to_indices [''!''] [[]] Map.empty unk_word_index_default = Inr [[]]"
  by code_simp

text \<open>
  Claim C2, amended: the tokens of a claim are taken from left to right, each lowercased,
  replaced by the words of its expansion when it is a key of the contraction map and
  stripped of punctuation otherwise; every resulting non-empty word has one position
  in the sequence, in the order of the words, and a word that occurs in the dictionary
  contributes the index \<open>i\<close> of its first occurrence there.
\<close>

theorem present_word_gets_first_index:
  assumes "k < length corpus"
    and "ws = filter (\<lambda>w. w \<noteq> []) (resulting_words c_map (corpus ! k))"
    and "j < length ws"
    and "ws ! j \<in> set dictionary"
  shows "\<exists>sequences i. convert_to_indices corpus dictionary c_map unk_word_index = Inr sequences
           \<and> length sequences = length corpus
           \<and> length (sequences ! k) = length ws
           \<and> sequences ! k ! j = int i
           \<and> i < length dictionary \<and> dictionary ! i = ws ! j
           \<and> (\<forall>i'<i. dictionary ! i' \<noteq> ws ! j)"
proof -
  from list_index_present [OF assms(4)] obtain i where
    i: "list_index dictionary (ws ! j) = Inr (int i)" "i < length dictionary"
       "dictionary ! i = ws ! j" "\<forall>i'<i. dictionary ! i' \<noteq> ws ! j"
    by blast
  have ws: "looked_up_words c_map (corpus ! k) = ws"
    by (simp add: looked_up_words_resulting assms(2))
  have "lookup_index dictionary unk_word_index (ws ! j) = int i"
    by (simp add: lookup_index_def i(1))
  with assms(1,3) ws i(2,3,4) show ?thesis
    by (simp add: convert_to_indices_eq)
qed

text \<open>
  The claim \<open>I can't go!\<close> with \<open>can't\<close> expanding to \<open>can not\<close>: the third word
  \<open>not\<close> stands at positions 0 and 2 of the dictionary and contributes 0.
\<close>

theorem present_word_gets_first_index_witness:
  "(0::nat) < length [''I can't go!'']
   \<and> [''i'', ''can'', ''not'', ''go'']
       = filter (\<lambda>w. w \<noteq> []) (resulting_words [''can't'' \<mapsto> ''can not''] ([''I can't go!''] ! 0))
   \<and> (2::nat) < length [''i'', ''can'', ''not'', ''go'']
   \<and> [''i'', ''can'', ''not'', ''go''] ! 2 \<in> set [''not'', ''i'', ''not'', ''go'']
   \<and> (\<exists>sequences i. convert_to_indices [''I can't go!''] [''not'', ''i'', ''not'', ''go'']
                        [''can't'' \<mapsto> ''can not''] (-1) = Inr sequences
         \<and> length sequences = length [''I can't go!'']
         \<and> length (sequences ! 0) = length [''i'', ''can'', ''not'', ''go'']
         \<and> sequences ! 0 ! 2 = int i
         \<and> i < length [''not'', ''i'', ''not'', ''go'']
         \<and> [''not'', ''i'', ''not'', ''go''] ! i = [''i'', ''can'', ''not'', ''go''] ! 2
         \<and> (\<forall>i'<i. [''not'', ''i'', ''not'', ''go''] ! i' \<noteq> [''i'', ''can'', ''not'', ''go''] ! 2))
   \<and> convert_to_indices [''I can't go!''] [''not'', ''i'', ''not'', ''go'']
        [''can't'' \<mapsto> ''can not''] (-1) = Inr [[1, -1, 0, 3]]"
proof -
  have h1: "(0::nat) < length [''I can't go!'']" by simp
  have h2: "[''i'', ''can'', ''not'', ''go'']
       = filter (\<lambda>w. w \<noteq> []) (resulting_words [''can't'' \<mapsto> ''can not''] ([''I can't go!''] ! 0))"
    by code_simp
  have h3: "(2::nat) < length [''i'', ''can'', ''not'', ''go'']" by simp
  have h4: "[''i'', ''can'', ''not'', ''go''] ! 2 \<in> set [''not'', ''i'', ''not'', ''go'']"
    by code_simp
  have r: "convert_to_indices [''I can't go!''] [''not'', ''i'', ''not'', ''go'']
        [''can't'' \<mapsto> ''can not''] (-1) = Inr [[1, -1, 0, 3]]"
    by code_simp
  from present_word_gets_first_index [OF h1 h2 h3 h4, of "-1"] h1 h2 h3 h4 r show ?thesis
    by blast
qed

subsection \<open>Padding\<close>

text \<open>
  Claim C3. Padding a list of index sequences with maximum length 125, padding mode
  \<open>pre\<close> and truncating mode \<open>post\<close> gives one row per sequence, every row with exactly
  125 entries: a sequence shorter than 125 has zeros put before it, a longer one keeps
  its first 125 indices, and one of length 125 is unchanged.
\<close>

theorem padding_gives_fixed_width:
  "X sequences = pad_sequences sequences 125 Pre Post
   \<and> length (X sequences) = length sequences
   \<and> (\<forall>row \<in> set (X sequences). length row = 125)
   \<and> (\<forall>k < length sequences.
        (length (sequences ! k) < 125 \<longrightarrow>
           X sequences ! k = replicate (125 - length (sequences ! k)) 0 @ sequences ! k)
        \<and> (length (sequences ! k) = 125 \<longrightarrow> X sequences ! k = sequences ! k)
        \<and> (125 < length (sequences ! k) \<longrightarrow> X sequences ! k = take 125 (sequences ! k)))"
proof (intro conjI allI impI ballI)
  show "X sequences = pad_sequences sequences 125 Pre Post"
    by (simp add: X_def maxSeqLength_def)
  show "length (X sequences) = length sequences"
    by (simp add: X_def pad_sequences_def)
next
  fix row
  assume "row \<in> set (X sequences)"
  then obtain s where "row = pad_row 125 Pre Post 0 s"
    by (auto simp: X_def pad_sequences_def maxSeqLength_def)
  then show "length row = 125"
    by (simp add: pad_row_def)
next
  fix k
  assume k: "k < length sequences"
  then have row: "X sequences ! k = pad_row 125 Pre Post 0 (sequences ! k)"
    by (simp add: X_def pad_sequences_def maxSeqLength_def)
  {
    assume "length (sequences ! k) < 125"
    with row show "X sequences ! k = replicate (125 - length (sequences ! k)) 0 @ sequences ! k"
      by (simp add: pad_row_def Let_def)
  next
    assume "length (sequences ! k) = 125"
    with row show "X sequences ! k = sequences ! k"
      by (simp add: pad_row_def Let_def)
  next
    assume "125 < length (sequences ! k)"
    with row show "X sequences ! k = take 125 (sequences ! k)"
      by (simp add: pad_row_def Let_def)
  }
qed

text \<open>A sequence of two indices and one of 130 indices.\<close>

theorem padding_gives_fixed_width_witness:
  "(0::nat) < length [[5, 7], map int [1 ..< 131]]
   \<and> length ([[5, 7], map int [1 ..< 131]] ! 0) < 125
   \<and> X [[5, 7], map int [1 ..< 131]] ! 0 = replicate 123 0 @ [5, 7]
   \<and> (1::nat) < length [[5, 7], map int [1 ..< 131]]
   \<and> 125 < length ([[5, 7], map int [1 ..< 131]] ! 1)
   \<and> X [[5, 7], map int [1 ..< 131]] ! 1 = map int [1 ..< 126]
   \<and> length (X [[5, 7], map int [1 ..< 131]]) = 2
   \<and> length (X [[5, 7], map int [1 ..< 131]] ! 0) = 125
   \<and> length (X [[5, 7], map int [1 ..< 131]] ! 1) = 125"
proof -
  let ?s = "[[5, 7], map int [1 ..< 131]]"
  have h0: "(0::nat) < length ?s" and h1: "(1::nat) < length ?s" by simp_all
  have l0: "length (?s ! 0) < 125" and l1: "125 < length (?s ! 1)" by simp_all
  have t: "take 125 (?s ! 1) = map int [1 ..< 126]" by (simp add: take_map)
  have m0: "X ?s ! 0 \<in> set (X ?s)" and m1: "X ?s ! 1 \<in> set (X ?s)"
    by (simp_all add: X_def pad_sequences_def)
  note p = padding_gives_fixed_width [of ?s]
  note rows = p [THEN conjunct2, THEN conjunct2, THEN conjunct1, rule_format]
  note by_length = p [THEN conjunct2, THEN conjunct2, THEN conjunct2, rule_format]
  from by_length [OF h0, THEN conjunct1, rule_format, OF l0]
  have r0: "X ?s ! 0 = replicate 123 0 @ [5, 7]" by simp
  from by_length [OF h1, THEN conjunct2, THEN conjunct2, rule_format, OF l1] t
  have r1: "X ?s ! 1 = map int [1 ..< 126]" by simp
  from p [THEN conjunct2, THEN conjunct1] have n: "length (X ?s) = 2" by simp
  from rows [OF m0] have w0: "length (X ?s ! 0) = 125" .
  from rows [OF m1] have w1: "length (X ?s ! 1) = 125" .
  from h0 h1 l0 l1 r0 r1 n w0 w1 show ?thesis by blast
qed

subsection \<open>Determinism\<close>



subsection \<open>Tokens of punctuation only\<close>

text \<open>
  Claim C5. A token that is no contraction and consists of punctuation characters only is
  stripped to the empty string, and the loop body leaves the sequence as it is: nothing is
  appended, not even the placeholder. A claim whose tokens are all of this kind yields the
  empty sequence, and a sequence can be shorter than the list of its claim's tokens.
\<close>

theorem punctuation_only_token_dropped:
  "(c_map (str_lower word0) = None \<and> set word0 \<subseteq> set punctuation \<longrightarrow>
      remove_special_characters (str_lower word0) = []
      \<and> word_step dictionary c_map unk_word_index sequence word0 = Inr sequence)
   \<and> ((\<forall>word0 \<in> set (str_split claim). c_map (str_lower word0) = None \<and> set word0 \<subseteq> set punctuation) \<longrightarrow>
      convert_to_indices [claim] dictionary c_map unk_word_index = Inr [[]])
   \<and> (\<exists>claim' sequence'. convert_to_indices [claim'] dictionary Map.empty unk_word_index = Inr [sequence']
         \<and> length sequence' < length (str_split claim'))"
proof (intro conjI impI)
  assume a: "c_map (str_lower word0) = None \<and> set word0 \<subseteq> set punctuation"
  then have l: "str_lower word0 = word0" by (simp add: str_lower_punctuation)
  with a show e: "remove_special_characters (str_lower word0) = []"
    by (simp add: remove_special_characters_punctuation)
  with a show "word_step dictionary c_map unk_word_index sequence word0 = Inr sequence"
    by (simp add: word_step_eq token_words_def)
next
  assume a: "\<forall>word0 \<in> set (str_split claim). c_map (str_lower word0) = None \<and> set word0 \<subseteq> set punctuation"
  have "token_words c_map word0 = []" if "word0 \<in> set (str_split claim)" for word0
    using a that by (simp add: token_words_punctuation)
  then have "looked_up_words c_map claim = []"
    by (simp add: looked_up_words_def)
  then show "convert_to_indices [claim] dictionary c_map unk_word_index = Inr [[]]"
    by (simp add: convert_to_indices_eq)
next
  have s: "str_split ''!'' = [''!'']" by code_simp
  have "token_words Map.empty ''!'' = []"
    by (simp add: token_words_def str_lower_punctuation remove_special_characters_punctuation punctuation_def)
  then have "convert_to_indices [''!''] dictionary Map.empty unk_word_index = Inr [[]]"
    by (simp add: convert_to_indices_eq looked_up_words_def s)
  with s show "\<exists>claim' sequence'. convert_to_indices [claim'] dictionary Map.empty unk_word_index = Inr [sequence']
         \<and> length sequence' < length (str_split claim')"
    by (intro exI[of _ "''!''"] exI[of _ "[]"]) simp
qed

text \<open>
  The token \<open>?!\<close> after \<open>my car\<close>, and the claim \<open>... -- !\<close>.
\<close>

theorem punctuation_only_token_dropped_witness:
  "Map.empty (str_lower ''?!'') = (None :: string option) \<and> set ''?!'' \<subseteq> set punctuation
   \<and> remove_special_characters (str_lower ''?!'') = []
   \<and> word_step [''my'', ''car''] Map.empty unk_word_index_default [0, 1] ''?!'' = Inr [0, 1]
   \<and> str_split ''... -- !'' = [''...'', ''--'', ''!'']
   \<and> set ''...'' \<subseteq> set punctuation \<and> set ''--'' \<subseteq> set punctuation \<and> set ''!'' \<subseteq> set punctuation
   \<and> convert_to_indices [''... -- !''] [''my'', ''car''] Map.empty unk_word_index_default = Inr [[]]
   \<and> convert_to_indices [''my car ?!''] [''my'', ''car''] Map.empty unk_word_index_default = Inr [[0, 1]]
   \<and> length (str_split ''my car ?!'') = 3"
proof -
  have h1: "Map.empty (str_lower ''?!'') = (None :: string option) \<and> set ''?!'' \<subseteq> set punctuation"
    by code_simp
  have s: "str_split ''... -- !'' = [''...'', ''--'', ''!'']" by code_simp
  have p: "set ''...'' \<subseteq> set punctuation \<and> set ''--'' \<subseteq> set punctuation \<and> set ''!'' \<subseteq> set punctuation"
    by code_simp
  have h2: "\<forall>word0 \<in> set (str_split ''... -- !'').
              Map.empty (str_lower word0) = (None :: string option) \<and> set word0 \<subseteq> set punctuation"
    using p by (simp add: s)
  have r: "convert_to_indices [''my car ?!''] [''my'', ''car''] Map.empty unk_word_index_default = Inr [[0, 1]]
           \<and> length (str_split ''my car ?!'') = 3"
    by code_simp
  from punctuation_only_token_dropped [of Map.empty "''?!''" "[''my'', ''car'']"
      unk_word_index_default "[0, 1]" "''... -- !''"] h1 h2 s p r
  show ?thesis by blast
qed

subsection \<open>Indices address rows of the table\<close>

text \<open>
  Claim C6. When the dictionary and the table of word vectors have 400000 entries each,
  the placeholder 399999 is the index of the last row, and every index that
  \<open>convert_to_indices\<close> emits, a dictionary position or the placeholder, addresses a row
  of the embedding layer built from the table.
\<close>

theorem emitted_indices_address_rows:
  assumes "length dictionary = 400000" and "length word_vectors = 400000"
  shows "unk_word_index_default = int (length word_vectors) - 1
         \<and> addresses_row (embedding_input_dim word_vectors) unk_word_index_default
         \<and> (\<exists>sequences. convert_to_indices corpus dictionary c_map unk_word_index_default = Inr sequences
               \<and> (\<forall>sequence \<in> set sequences. \<forall>word_index \<in> set sequence.
                     addresses_row (embedding_input_dim word_vectors) word_index))"
proof -
  have unk: "addresses_row (embedding_input_dim word_vectors) unk_word_index_default"
    using assms(2) by (simp add: addresses_row_def embedding_input_dim_def unk_word_index_default_def)
  have "addresses_row (embedding_input_dim word_vectors) (lookup_index dictionary unk_word_index_default w)" for w
  proof (cases "w \<in> set dictionary")
    case True
    from list_index_present [OF this] obtain i where
      "list_index dictionary w = Inr (int i)" "i < length dictionary" by blast
    with assms show ?thesis
      by (simp add: lookup_index_def addresses_row_def embedding_input_dim_def)
  next
    case False
    then have "list_index dictionary w = Inl ValueError" by (rule list_index_absent)
    with unk show ?thesis by (simp add: lookup_index_def)
  qed
  then have "\<forall>sequence \<in> set (map (\<lambda>claim. map (lookup_index dictionary unk_word_index_default)
                 (looked_up_words c_map claim)) corpus).
               \<forall>word_index \<in> set sequence. addresses_row (embedding_input_dim word_vectors) word_index"
    by auto
  with unk assms(2) show ?thesis
    by (simp add: convert_to_indices_eq unk_word_index_default_def)
qed

theorem emitted_indices_address_rows_witness:
  "length (replicate 400000 ''car'') = 400000 \<and> length (replicate 400000 (0::int)) = 400000
   \<and> unk_word_index_default = int (length (replicate 400000 (0::int))) - 1
   \<and> addresses_row (embedding_input_dim (replicate 400000 (0::int))) unk_word_index_default
   \<and> (\<exists>sequences. convert_to_indices [''my car''] (replicate 400000 ''car'') Map.empty
                      unk_word_index_default = Inr sequences
         \<and> (\<forall>sequence \<in> set sequences. \<forall>word_index \<in> set sequence.
               addresses_row (embedding_input_dim (replicate 400000 (0::int))) word_index))"
proof -
  have h1: "length (replicate 400000 ''car'') = 400000" by simp
  have h2: "length (replicate 400000 (0::int)) = 400000" by simp
  from emitted_indices_address_rows [OF h1 h2, of "[''my car'']" Map.empty] h1 h2
  show ?thesis by blast
qed

subsection \<open>Binary labels\<close>

text \<open>
  Claim C7, as stated: every label parsed from the labels file is 0 or 1. The script
  converts each line with \<^verbatim>\<open>int\<close> and checks nothing: a labels file with the lines
  \<open>1\<close> and \<open>2\<close> gives the labels 1 and 2.
\<close>

theorem label_not_binary_counterexample:
  "labels [''1'' @ [CHR 0x0A], ''2'' @ [CHR 0x0A]] = Inr [1, 2]
   \<and> [1, 2] ! 1 \<noteq> (0::int) \<and> [1, 2] ! 1 \<noteq> (1::int)"
  by code_simp

text \<open>
  Claim C7, amended: when every line of the labels file is the digit 0 or the digit 1,
  with or without its line feed, the labels are read without an error, there is one label
  per line in the order of the lines, each the integer 0 or 1 (so the list is parallel to
  the list of claim strings when the two files have equally many lines), and
  \<^verbatim>\<open>to_categorical\<close> over 2 classes gives one row per label, the row \<open>[1, 0]\<close> for the
  label 0 and the row \<open>[0, 1]\<close> for the label 1.
\<close>

theorem binary_labels_parallel:
  assumes "list_all binary_line lines"
    and "length lines = length claims_corpus"
  shows "\<exists>ls rows. labels lines = Inr ls
           \<and> length ls = length claims_corpus
           \<and> (\<forall>k < length lines. ls ! k = line_value (lines ! k) \<and> (ls ! k = 0 \<or> ls ! k = 1))
           \<and> categorical_labels lines = Inr rows
           \<and> length rows = length ls
           \<and> (\<forall>k < length ls. (ls ! k = 0 \<longrightarrow> rows ! k = [1, 0])
                                \<and> (ls ! k = 1 \<longrightarrow> rows ! k = [0, 1]))"
proof -
  let ?ls = "map line_value lines"
  let ?rows = "map (\<lambda>l. if l = 0 then [1, 0] else [0, 1]) ?ls"
  have ls: "labels lines = Inr ?ls"
    using assms(1) by (rule labels_binary)
  have bin: "list_all (\<lambda>l. l = 0 \<or> l = 1) ?ls"
    by (auto simp: list_all_iff line_value_def)
  then have "to_categorical ?ls 2 = Inr ?rows"
    by (rule to_categorical_binary)
  with ls have rows: "categorical_labels lines = Inr ?rows"
    by (simp add: categorical_labels_def)
  have "\<forall>k < length lines. ?ls ! k = line_value (lines ! k) \<and> (?ls ! k = 0 \<or> ?ls ! k = 1)"
    by (simp add: line_value_def)
  moreover have "\<forall>k < length ?ls. (?ls ! k = 0 \<longrightarrow> ?rows ! k = [1, 0])
                                \<and> (?ls ! k = 1 \<longrightarrow> ?rows ! k = [0, 1])"
    by simp
  ultimately show ?thesis
    using ls rows assms(2) by (intro exI[of _ ?ls] exI[of _ ?rows]) simp
qed

text \<open>Three claims and the labels file \<open>1\<close>, \<open>0\<close>, \<open>1\<close>, its last line without a line feed.\<close>

theorem binary_labels_parallel_witness:
  "list_all binary_line [''1'' @ [CHR 0x0A], ''0'' @ [CHR 0x0A], ''1'']
   \<and> length [''1'' @ [CHR 0x0A], ''0'' @ [CHR 0x0A], ''1'']
       = length [''I crashed my car'', ''The flood ruined my house'', ''I lost control'']
   \<and> labels [''1'' @ [CHR 0x0A], ''0'' @ [CHR 0x0A], ''1''] = Inr [1, 0, 1]
   \<and> categorical_labels [''1'' @ [CHR 0x0A], ''0'' @ [CHR 0x0A], ''1'']
       = Inr [[0, 1], [1, 0], [0, 1]]
   \<and> (\<exists>ls rows. labels [''1'' @ [CHR 0x0A], ''0'' @ [CHR 0x0A], ''1''] = Inr ls
         \<and> length ls = length [''I crashed my car'', ''The flood ruined my house'', ''I lost control'']
         \<and> (\<forall>k < length [''1'' @ [CHR 0x0A], ''0'' @ [CHR 0x0A], ''1''].
               ls ! k = line_value ([''1'' @ [CHR 0x0A], ''0'' @ [CHR 0x0A], ''1''] ! k)
               \<and> (ls ! k = 0 \<or> ls ! k = 1))
         \<and> categorical_labels [''1'' @ [CHR 0x0A], ''0'' @ [CHR 0x0A], ''1''] = Inr rows
         \<and> length rows = length ls
         \<and> (\<forall>k < length ls. (ls ! k = 0 \<longrightarrow> rows ! k = [1, 0])
                              \<and> (ls ! k = 1 \<longrightarrow> rows ! k = [0, 1])))"
proof -
  have h1: "list_all binary_line [''1'' @ [CHR 0x0A], ''0'' @ [CHR 0x0A], ''1'']"
    by code_simp
  have h2: "length [''1'' @ [CHR 0x0A], ''0'' @ [CHR 0x0A], ''1'']
       = length [''I crashed my car'', ''The flood ruined my house'', ''I lost control'']"
    by simp
  have r: "labels [''1'' @ [CHR 0x0A], ''0'' @ [CHR 0x0A], ''1''] = Inr [1, 0, 1]
           \<and> categorical_labels [''1'' @ [CHR 0x0A], ''0'' @ [CHR 0x0A], ''1'']
               = Inr [[0, 1], [1, 0], [0, 1]]"
    by code_simp
  from binary_labels_parallel [OF h1 h2] h1 h2 r show ?thesis by blast
qed

subsection \<open>Contractions\<close>

text \<open>
  Claim C9, as stated: every token that is a contraction with punctuation attached is not
  expanded. It fails where the token with its punctuation is a key of the contraction map
  too: with the keys \<open>can't\<close> and \<open>can't,\<close> the token \<open>can't,\<close> is the contraction
  \<open>can't\<close> with a trailing comma, and it is expanded, to the words \<open>can not\<close> of the
  key \<open>can't,\<close>, where stripping would have looked up \<open>cant\<close>.
\<close>

theorem attached_punctuation_expanded_counterexample:
  "[''can't'' \<mapsto> ''cannot'', ''can't,'' \<mapsto> ''can not''] (str_lower ''can't'') = Some ''cannot''
   \<and> set '','' \<subseteq> set punctuation
   \<and> [''can't'' \<mapsto> ''cannot'', ''can't,'' \<mapsto> ''can not''] (str_lower (''can't'' @ '',''))
       = Some ''can not''
   \<and> word_step [''can'', ''not'', ''cannot'', ''cant'']
         [''can't'' \<mapsto> ''cannot'', ''can't,'' \<mapsto> ''can not''] unk_word_index_default []
         (''can't'' @ '','') = Inr [0, 1]
   \<and> map (lookup_index [''can'', ''not'', ''cannot'', ''cant''] unk_word_index_default)
         (str_split ''can not'') = [0, 1]
   \<and> lookup_index [''can'', ''not'', ''cannot'', ''cant''] unk_word_index_default
         (remove_special_characters (str_lower (''can't'' @ '',''))) = 3"
  by code_simp

text \<open>
  Claim C9, amended: a token is expanded exactly when the whole lowercased token is a key
  of the contraction map, and then the words of the expansion are looked up as they are,
  neither lowercased nor stripped. Punctuation is stripped in the other branch only: a
  token that is a contraction with punctuation attached, before it or after it, and that
  is not itself a key of the contraction map, is not expanded but stripped of its
  punctuation and looked up as one word.
\<close>

theorem contraction_needs_exact_token:
  "(c_map (str_lower word0) = Some expanded \<longrightarrow>
      word_step dictionary c_map unk_word_index sequence word0
        = Inr (sequence @ map (lookup_index dictionary unk_word_index) (str_split expanded)))
   \<and> (c_map (str_lower word0) = None \<longrightarrow>
      word_step dictionary c_map unk_word_index sequence word0
        = Inr (sequence @ (if remove_special_characters (str_lower word0) = [] then []
                           else [lookup_index dictionary unk_word_index
                                   (remove_special_characters (str_lower word0))])))
   \<and> (c_map (str_lower key) = Some expanded' \<and> set p \<subseteq> set punctuation
        \<and> set q \<subseteq> set punctuation \<and> c_map (str_lower (p @ key @ q)) = None \<longrightarrow>
      word_step dictionary c_map unk_word_index sequence (p @ key @ q)
        = Inr (sequence @ (if remove_special_characters (str_lower key) = [] then []
                           else [lookup_index dictionary unk_word_index
                                   (remove_special_characters (str_lower key))])))"
proof (intro conjI impI)
  assume "c_map (str_lower word0) = Some expanded"
  then show "word_step dictionary c_map unk_word_index sequence word0
        = Inr (sequence @ map (lookup_index dictionary unk_word_index) (str_split expanded))"
    by (simp add: word_step_eq token_words_def)
next
  assume "c_map (str_lower word0) = None"
  then show "word_step dictionary c_map unk_word_index sequence word0
        = Inr (sequence @ (if remove_special_characters (str_lower word0) = [] then []
                           else [lookup_index dictionary unk_word_index
                                   (remove_special_characters (str_lower word0))]))"
    by (simp add: word_step_eq token_words_def)
next
  assume a: "c_map (str_lower key) = Some expanded' \<and> set p \<subseteq> set punctuation
        \<and> set q \<subseteq> set punctuation \<and> c_map (str_lower (p @ key @ q)) = None"
  then have "str_lower p = p" and "str_lower q = q"
    by (simp_all add: str_lower_punctuation)
  then have "str_lower (p @ key @ q) = p @ str_lower key @ q"
    by (simp add: str_lower_def)
  moreover from a have "remove_special_characters p = []" and "remove_special_characters q = []"
    by (simp_all add: remove_special_characters_punctuation)
  ultimately have "remove_special_characters (str_lower (p @ key @ q))
                     = remove_special_characters (str_lower key)"
    by (simp add: remove_special_characters_filter)
  with a show "word_step dictionary c_map unk_word_index sequence (p @ key @ q)
        = Inr (sequence @ (if remove_special_characters (str_lower key) = [] then []
                           else [lookup_index dictionary unk_word_index
                                   (remove_special_characters (str_lower key))]))"
    by (simp add: word_step_eq token_words_def)
qed

text \<open>
  With \<open>can't\<close> expanding to \<open>Can not!\<close> and the dictionary \<open>can\<close>, \<open>not\<close>, \<open>cant\<close>:
  the token \<open>Can't\<close> is expanded and neither \<open>Can\<close> nor \<open>not!\<close> is found; the token
  \<open>(Can't,\<close> is not expanded and is found as \<open>cant\<close>.
\<close>

theorem contraction_needs_exact_token_witness:
  "[''can't'' \<mapsto> ''Can not!''] (str_lower ''Can't'') = Some ''Can not!''
   \<and> word_step [''can'', ''not'', ''cant''] [''can't'' \<mapsto> ''Can not!''] (-1) [] ''Can't''
       = Inr ([] @ map (lookup_index [''can'', ''not'', ''cant''] (-1)) (str_split ''Can not!''))
   \<and> map (lookup_index [''can'', ''not'', ''cant''] (-1)) (str_split ''Can not!'') = [-1, -1]
   \<and> set ''('' \<subseteq> set punctuation \<and> set '','' \<subseteq> set punctuation
   \<and> [''can't'' \<mapsto> ''Can not!''] (str_lower (''('' @ ''Can't'' @ '','')) = None
   \<and> word_step [''can'', ''not'', ''cant''] [''can't'' \<mapsto> ''Can not!''] (-1) []
         (''('' @ ''Can't'' @ '','')
       = Inr ([] @ (if remove_special_characters (str_lower ''Can't'') = [] then []
                    else [lookup_index [''can'', ''not'', ''cant''] (-1)
                            (remove_special_characters (str_lower ''Can't''))]))
   \<and> remove_special_characters (str_lower ''Can't'') = ''cant''
   \<and> lookup_index [''can'', ''not'', ''cant''] (-1) ''cant'' = 2"
proof -
  have h1: "[''can't'' \<mapsto> ''Can not!''] (str_lower ''Can't'') = Some ''Can not!''"
    by code_simp
  have h2: "set ''('' \<subseteq> set punctuation" and h3: "set '','' \<subseteq> set punctuation"
    by code_simp+
  have h4: "[''can't'' \<mapsto> ''Can not!''] (str_lower (''('' @ ''Can't'' @ '','')) = None"
    by code_simp
  have r1: "map (lookup_index [''can'', ''not'', ''cant''] (-1)) (str_split ''Can not!'') = [-1, -1]"
    by code_simp
  have r2: "remove_special_characters (str_lower ''Can't'') = ''cant''" by code_simp
  have r3: "lookup_index [''can'', ''not'', ''cant''] (-1) ''cant'' = 2" by code_simp
  from contraction_needs_exact_token [of "[''can't'' \<mapsto> ''Can not!'']" "''Can't''" "''Can not!''"
      "[''can'', ''not'', ''cant'']" "-1" "[]" "''Can't''" "''Can not!''" "''(''" "'',''"]
    h1 h2 h3 h4 r1 r2 r3
  show ?thesis by blast
qed

subsection \<open>Stripping punctuation\<close>

text \<open>
  Claim C10. \<open>remove_special_characters\<close> is idempotent; its output holds no ASCII
  punctuation character and is no longer than its input; it is the input's characters
  other than punctuation, unchanged and in their order.
\<close>

theorem remove_special_characters_idempotent:
  "remove_special_characters (remove_special_characters token) = remove_special_characters token
   \<and> set (remove_special_characters token) \<inter> set punctuation = {}
   \<and> length (remove_special_characters token) \<le> length token
   \<and> remove_special_characters token = filter (\<lambda>c. c \<notin> set punctuation) token"
proof -
  let ?keep = "\<lambda>c. c \<notin> set punctuation"
  have kept: "remove_special_characters t = filter ?keep t" for t
    by (rule remove_special_characters_filter)
  have "filter ?keep (filter ?keep token) = filter ?keep token"
    by simp
  then have twice: "remove_special_characters (remove_special_characters token)
                      = remove_special_characters token"
    by (simp only: kept)
  have "set (filter ?keep token) \<inter> set punctuation = {}"
    by auto
  then have clean: "set (remove_special_characters token) \<inter> set punctuation = {}"
    by (simp only: kept)
  have "length (filter ?keep token) \<le> length token"
    by (rule length_filter_le)
  then have short: "length (remove_special_characters token) \<le> length token"
    by (simp only: kept)
  from twice clean short kept [of token] show ?thesis
    by (intro conjI)
qed

text \<open>The token \<open>(can't),\<close> is stripped to \<open>cant\<close>.\<close>

theorem remove_special_characters_idempotent_witness:
  "remove_special_characters ''(can't),'' = ''cant''
   \<and> remove_special_characters (remove_special_characters ''(can't),'')
       = remove_special_characters ''(can't),''
   \<and> set (remove_special_characters ''(can't),'') \<inter> set punctuation = {}
   \<and> length (remove_special_characters ''(can't),'') \<le> length ''(can't),''
   \<and> remove_special_characters ''(can't),'' = filter (\<lambda>c. c \<notin> set punctuation) ''(can't),''"
proof -
  have "remove_special_characters ''(can't),'' = ''cant''" by code_simp
  with remove_special_characters_idempotent [of "''(can't),''"] show ?thesis by blast
qed

end
